theory Spec2Isabelle
  imports Main
begin

section \<open>The Cassandra locking recipe of silverberg (lock.py)\<close>

text \<open>
  The module drives three external collaborators: the CQL client (\<open>client.execute\<close>),
  the Twisted reactor (\<open>task.deferLater\<close>) and the UUID generator (\<open>uuid.uuid1\<close>).
  They are parameters of the model (an \<open>env\<close>), acting on a state of their own (the
  \<open>backend\<close>). A fired Deferred is a pair of its result (\<open>Inr\<close>) or failure
  (\<open>Inl\<close>) and the world after it; callbacks are chained as Twisted chains them.
\<close>

subsection \<open>Data\<close>

text \<open>A row of a response: \<open>response[0]['claimId']\<close> reads the field \<open>claimId\<close>.
  A claim identifier (a UUID) is a number here. The module compares claim identifiers
  for equality only; their order is the one of the store's \<open>ORDER BY\<close>.\<close>

record row =
  lockId :: string
  claimId :: nat

datatype ConsistencyLevel = ONE | QUORUM | ALL

text \<open>The five CQL statements of the module, each with its format arguments and bound
  parameters:
  \<^item> \<open>Insert cf lockId claimId ttl\<close>:
    \<^verbatim>\<open>INSERT INTO {cf} ("lockId","claimId") VALUES (:lockId,:claimId) USING TTL {ttl};\<close>
  \<^item> \<open>Select cf lockId\<close>:
    \<^verbatim>\<open>SELECT * FROM {cf} WHERE "lockId"=:lockId ORDER BY "claimId";\<close>
  \<^item> \<open>Delete cf lockId claimId\<close>:
    \<^verbatim>\<open>DELETE FROM {cf} WHERE "lockId"=:lockId AND "claimId"=:claimId;\<close>
  \<^item> \<open>CreateTable cf\<close>:
    \<^verbatim>\<open>CREATE TABLE {cf}("lockId" ascii, "claimId" timeuuid, PRIMARY KEY("lockId", "claimId"));\<close>
  \<^item> \<open>DropTable cf\<close>: \<^verbatim>\<open>DROP TABLE {cf}\<close>\<close>

datatype statement =
    Insert string string nat int
  | Select string string
  | Delete string string nat
  | CreateTable string
  | DropTable string

text \<open>Failures, by exception type. \<open>BusyLockError\<close> carries its message,
  \<open>InvalidRequestException\<close> its \<open>why\<close>; \<open>IndexError\<close> is what \<open>response[0]\<close>
  raises on an empty response; \<open>AssertionError\<close> is what the reactor's \<open>callLater\<close>
  raises on a negative delay; \<open>OtherException\<close> is an exception of any other type (a
  timeout, an unavailable quorum, an exception of the unit of work), by its name.\<close>

datatype failure =
    BusyLockError string
  | InvalidRequestException string
  | IndexError
  | AssertionError
  | OtherException string

fun is_BusyLockError :: "failure \<Rightarrow> bool" where
  "is_BusyLockError (BusyLockError m) = True"
| "is_BusyLockError f = False"

fun is_InvalidRequestException :: "failure \<Rightarrow> bool" where
  "is_InvalidRequestException (InvalidRequestException why) = True"
| "is_InvalidRequestException f = False"

text \<open>\<open>BusyLockError.__init__(lock_table, lock_id)\<close>: the message names both.\<close>

definition BusyLockError_init :: "string \<Rightarrow> string \<Rightarrow> failure" where
  "BusyLockError_init lock_table lock_id =
     BusyLockError (''Unable to acquire lock '' @ lock_id @ '' on '' @ lock_table)"

subsection \<open>The world outside the module\<close>

text \<open>Every call the module makes to a collaborator is recorded in the \<open>trace\<close>, as a
  recording test double would: a statement executed, a delay waited, a UUID generated.\<close>

datatype event =
    Executed statement ConsistencyLevel
  | Waited int
  | Generated nat

record 'b world =
  trace :: "event list"
  backend :: 'b

record 'b env =
  respond :: "statement \<Rightarrow> ConsistencyLevel \<Rightarrow> 'b \<Rightarrow> (failure + row list) \<times> 'b"
  elapse :: "int \<Rightarrow> 'b \<Rightarrow> 'b"
  fresh_uuid :: "'b \<Rightarrow> nat \<times> 'b"

text \<open>\<open>client.execute(query, args, consistency)\<close>.\<close>

definition execute ::
  "'b env \<Rightarrow> statement \<Rightarrow> ConsistencyLevel \<Rightarrow> 'b world \<Rightarrow> (failure + row list) \<times> 'b world" where
  "execute env st lvl w =
     (case respond env st lvl (backend w) of
        (r, b) \<Rightarrow> (r, w\<lparr>trace := trace w @ [Executed st lvl], backend := b\<rparr>))"

text \<open>The world once a delay of \<open>timeout\<close> seconds has passed.\<close>

definition delayed :: "'b env \<Rightarrow> int \<Rightarrow> 'b world \<Rightarrow> 'b world" where
  "delayed env timeout w =
     w\<lparr>trace := trace w @ [Waited timeout], backend := elapse env timeout (backend w)\<rparr>"

text \<open>The delay of \<open>task.deferLater(reactor, timeout, f)\<close>; \<open>f\<close> is called after it.
  \<open>deferLater\<close> schedules with \<open>reactor.callLater(timeout, ...)\<close>, which asserts
  \<open>timeout >= 0\<close>: on a negative delay the call raises AssertionError, nothing is
  scheduled and the world is as it was.\<close>

definition deferLater :: "'b env \<Rightarrow> int \<Rightarrow> 'b world \<Rightarrow> failure + 'b world" where
  "deferLater env timeout w =
     (if timeout < 0 then Inl AssertionError else Inr (delayed env timeout w))"

text \<open>\<open>uuid.uuid1()\<close>.\<close>

definition uuid1 :: "'b env \<Rightarrow> 'b world \<Rightarrow> nat \<times> 'b world" where
  "uuid1 env w =
     (case fresh_uuid env (backend w) of
        (u, b) \<Rightarrow> (u, w\<lparr>trace := trace w @ [Generated u], backend := b\<rparr>))"

subsection \<open>Deferred chaining\<close>

text \<open>\<open>d.addCallback(f)\<close> runs \<open>f\<close> on a result and passes a failure on;
  \<open>d.addErrback(f)\<close> runs \<open>f\<close> on a failure and passes a result on;
  \<open>d.addBoth(f)\<close> runs \<open>f\<close> on either.\<close>

definition addCallback ::
  "(failure + 'a) \<times> 'w \<Rightarrow> ('a \<Rightarrow> 'w \<Rightarrow> (failure + 'c) \<times> 'w) \<Rightarrow> (failure + 'c) \<times> 'w" where
  "addCallback d f = (case d of (Inl e, w) \<Rightarrow> (Inl e, w) | (Inr x, w) \<Rightarrow> f x w)"

definition addErrback ::
  "(failure + 'a) \<times> 'w \<Rightarrow> (failure \<Rightarrow> 'w \<Rightarrow> (failure + 'a) \<times> 'w) \<Rightarrow> (failure + 'a) \<times> 'w" where
  "addErrback d f = (case d of (Inl e, w) \<Rightarrow> f e w | (Inr x, w) \<Rightarrow> (Inr x, w))"

definition addBoth ::
  "(failure + 'a) \<times> 'w \<Rightarrow> (failure + 'a \<Rightarrow> 'w \<Rightarrow> (failure + 'c) \<times> 'w) \<Rightarrow> (failure + 'c) \<times> 'w" where
  "addBoth d f = (case d of (r, w) \<Rightarrow> f r w)"

subsection \<open>BasicLock\<close>

text \<open>The fields of an instance; its client and reactor are the \<open>env\<close>.\<close>

record BasicLock =
  lock_table :: string
  lock_id :: string
  claim_id :: nat
  ttl :: int

definition default_ttl :: int where
  "default_ttl = 300"

definition default_max_retry :: int where
  "default_max_retry = 5"

definition default_timeout :: int where
  "default_timeout = 10"

text \<open>\<open>BasicLock.__init__\<close>: the one call of \<open>uuid.uuid1()\<close> in the module.\<close>

definition BasicLock_init ::
  "'b env \<Rightarrow> string \<Rightarrow> string \<Rightarrow> int \<Rightarrow> 'b world \<Rightarrow> BasicLock \<times> 'b world" where
  "BasicLock_init env tbl lid t w =
     (case uuid1 env w of
        (u, w') \<Rightarrow> (\<lparr>lock_table = tbl, lock_id = lid, claim_id = u, ttl = t\<rparr>, w'))"

definition read_lock ::
  "'b env \<Rightarrow> BasicLock \<Rightarrow> row list \<Rightarrow> 'b world \<Rightarrow> (failure + row list) \<times> 'b world" where
  "read_lock env lk ignored w = execute env (Select (lock_table lk) (lock_id lk)) QUORUM w"

definition write_lock :: "'b env \<Rightarrow> BasicLock \<Rightarrow> 'b world \<Rightarrow> (failure + row list) \<times> 'b world" where
  "write_lock env lk w =
     execute env (Insert (lock_table lk) (lock_id lk) (claim_id lk) (ttl lk)) QUORUM w"

definition release :: "'b env \<Rightarrow> BasicLock \<Rightarrow> 'b world \<Rightarrow> (failure + row list) \<times> 'b world" where
  "release env lk w = execute env (Delete (lock_table lk) (lock_id lk) (claim_id lk)) QUORUM w"

text \<open>\<open>_verify_lock\<close>: \<open>response[0]\<close> raises on an empty response, and the exception
  fails the Deferred.\<close>

definition verify_lock ::
  "'b env \<Rightarrow> BasicLock \<Rightarrow> row list \<Rightarrow> 'b world \<Rightarrow> (failure + bool) \<times> 'b world" where
  "verify_lock env lk response w =
     (case response of
        [] \<Rightarrow> (Inl IndexError, w)
      | r # rest \<Rightarrow>
          if claimId r = claim_id lk then (Inr True, w)
          else addCallback (release env lk w)
                 (\<lambda>x w'. (Inl (BusyLockError_init (lock_table lk) (lock_id lk)), w')))"

text \<open>\<open>ensure_schema\<close>: the errback traps \<open>InvalidRequestException\<close> and returns
  \<open>None\<close>; \<open>trap\<close> re-raises a failure of any other type.\<close>

definition ensure_schema ::
  "'b env \<Rightarrow> string \<Rightarrow> 'b world \<Rightarrow> (failure + row list option) \<times> 'b world" where
  "ensure_schema env table_name w =
     addErrback
       (addCallback (execute env (CreateTable table_name) QUORUM w) (\<lambda>rows w'. (Inr (Some rows), w')))
       (\<lambda>failure w'. if is_InvalidRequestException failure then (Inr None, w')
                      else (Inl failure, w'))"

definition drop_schema ::
  "'b env \<Rightarrow> string \<Rightarrow> 'b world \<Rightarrow> (failure + row list) \<times> 'b world" where
  "drop_schema env table_name w = execute env (DropTable table_name) QUORUM w"

text \<open>\<open>acquire._acquire_lock\<close>: one write-read-verify cycle.\<close>

definition acquire_lock :: "'b env \<Rightarrow> BasicLock \<Rightarrow> 'b world \<Rightarrow> (failure + bool) \<times> 'b world" where
  "acquire_lock env lk w =
     addCallback (addCallback (write_lock env lk w) (read_lock env lk)) (verify_lock env lk)"

text \<open>\<open>acquire._lock_not_acquired\<close>, the errback of every attempt. The cell
  \<open>retries[0]\<close> is threaded with the world and returned with the outcome. An exception
  that \<open>task.deferLater\<close> raises is raised in the errback, after the increment of the
  cell, and fails the Deferred.\<close>

function lock_not_acquired ::
  "'b env \<Rightarrow> BasicLock \<Rightarrow> int \<Rightarrow> int \<Rightarrow> failure \<Rightarrow> int \<times> 'b world
     \<Rightarrow> (failure + bool) \<times> int \<times> 'b world" where
  "lock_not_acquired env lk max_retry timeout failure (retries, w) =
     (if \<not> is_BusyLockError failure then (Inl failure, retries, w)
      else if retries + 1 \<le> max_retry then
        (case deferLater env timeout w of
           Inl raised \<Rightarrow> (Inl raised, retries + 1, w)
         | Inr v \<Rightarrow>
             (case acquire_lock env lk v of
                (Inl failure', w') \<Rightarrow>
                  lock_not_acquired env lk max_retry timeout failure' (retries + 1, w')
              | (Inr ok, w') \<Rightarrow> (Inr ok, retries + 1, w')))
      else (Inl failure, retries + 1, w))"
  by pat_completeness auto
termination
  by (relation "measure (\<lambda>(env, lk, max_retry, timeout, failure, retries, w). nat (max_retry - retries))")
    auto

declare lock_not_acquired.simps [simp del]

definition acquire ::
  "'b env \<Rightarrow> BasicLock \<Rightarrow> int \<Rightarrow> int \<Rightarrow> 'b world \<Rightarrow> (failure + bool) \<times> 'b world" where
  "acquire env lk max_retry timeout w =
     (case acquire_lock env lk w of
        (Inl failure, w') \<Rightarrow>
          (case lock_not_acquired env lk max_retry timeout failure (0, w') of
             (r, retries, w'') \<Rightarrow> (r, w''))
      | (Inr ok, w') \<Rightarrow> (Inr ok, w'))"

subsection \<open>with_lock\<close>

text \<open>\<open>release_lock(result)\<close>: \<open>result\<close> is the value or the Failure of the unit of work;
  it is returned only by the callback of a successful release.\<close>

definition release_lock ::
  "'b env \<Rightarrow> BasicLock \<Rightarrow> failure + 'a \<Rightarrow> 'b world \<Rightarrow> (failure + 'a) \<times> 'b world" where
  "release_lock env lk result w = addCallback (release env lk w) (\<lambda>x w'. (result, w'))"

text \<open>\<open>func\<close> stands for \<open>defer.maybeDeferred(func, *args, **kwargs)\<close>: the unit of
  work applied to its arguments, an exception it raises turned into a failure.\<close>

definition with_lock ::
  "'b env \<Rightarrow> string \<Rightarrow> string \<Rightarrow> ('b world \<Rightarrow> (failure + 'a) \<times> 'b world) \<Rightarrow> int \<Rightarrow> int \<Rightarrow> int
     \<Rightarrow> 'b world \<Rightarrow> (failure + 'a) \<times> 'b world" where
  "with_lock env tbl lid func t max_retry timeout w =
     (case BasicLock_init env tbl lid t w of
        (lock, w0) \<Rightarrow>
          addCallback (acquire env lock max_retry timeout w0)
            (\<lambda>acquired w1. addBoth (func w1) (release_lock env lock)))"

subsection \<open>Observations on traces\<close>

text \<open>An attempt is a write-read-verify cycle; each one starts with the one INSERT of
  \<open>_write_lock\<close>, so the attempts of a run are the INSERTs of its trace.\<close>

fun is_write :: "event \<Rightarrow> bool" where
  "is_write (Executed (Insert cf l c t) lvl) = True"
| "is_write ev = False"

definition attempts :: "event list \<Rightarrow> nat" where
  "attempts evs = length (filter is_write evs)"

fun is_release_of :: "BasicLock \<Rightarrow> event \<Rightarrow> bool" where
  "is_release_of lk (Executed (Delete cf l c) lvl) =
     (cf = lock_table lk \<and> l = lock_id lk \<and> c = claim_id lk)"
| "is_release_of lk ev = False"

definition releases :: "BasicLock \<Rightarrow> event list \<Rightarrow> nat" where
  "releases lk evs = length (filter (is_release_of lk) evs)"

text \<open>An event of the bidder \<open>lk\<close>: a statement on its table and lock name that, where it
  binds a claim identifier, binds the one of \<open>lk\<close>; or a delay. Generating a UUID is not
  one.\<close>

fun by_bidder :: "BasicLock \<Rightarrow> event \<Rightarrow> bool" where
  "by_bidder lk (Executed (Insert cf l c t) lvl) =
     (cf = lock_table lk \<and> l = lock_id lk \<and> c = claim_id lk)"
| "by_bidder lk (Executed (Select cf l) lvl) = (cf = lock_table lk \<and> l = lock_id lk)"
| "by_bidder lk (Executed (Delete cf l c) lvl) =
     (cf = lock_table lk \<and> l = lock_id lk \<and> c = claim_id lk)"
| "by_bidder lk (Executed (CreateTable cf) lvl) = False"
| "by_bidder lk (Executed (DropTable cf) lvl) = False"
| "by_bidder lk (Waited t) = True"
| "by_bidder lk (Generated u) = False"

text \<open>The world \<open>w'\<close> continues \<open>w\<close> with events that all satisfy \<open>P\<close>.\<close>

definition extends :: "(event \<Rightarrow> bool) \<Rightarrow> 'b world \<Rightarrow> 'b world \<Rightarrow> bool" where
  "extends P w w' =
     (take (length (trace w)) (trace w') = trace w \<and>
      list_all P (drop (length (trace w)) (trace w')))"

fun busy_outcome :: "failure + 'a \<Rightarrow> bool" where
  "busy_outcome (Inl f) = is_BusyLockError f"
| "busy_outcome (Inr x) = False"

text \<open>Persistent contention over a run: the first \<open>k\<close> attempts of the run that
  starts in \<open>w\<close>, each made \<open>timeout\<close> seconds after the one before it ended, all end
  in a BusyLockError.\<close>

fun all_busy :: "'b env \<Rightarrow> BasicLock \<Rightarrow> int \<Rightarrow> nat \<Rightarrow> 'b world \<Rightarrow> bool" where
  "all_busy env lk timeout 0 w = True"
| "all_busy env lk timeout (Suc k) w =
     (case acquire_lock env lk w of
        (Inl f, w') \<Rightarrow> is_BusyLockError f \<and> all_busy env lk timeout k (delayed env timeout w')
      | (Inr ok, w') \<Rightarrow> False)"

subsection \<open>The storage gateway of the spec\<close>

text \<open>Modelled from the spec: the store behind \<open>silverberg.client.CQLClient.execute\<close>,
  which is not part of lock.py. Sections 3 and 6 of the spec describe it: a claim record
  is a row keyed by (lock name, claim identifier) with a time-to-live, after which the
  store discards it; an insert writes the row with its expiry; a select returns the live
  rows of a lock name in ascending order of claim identifier; a delete removes the row
  of a (lock name, claim identifier) pair, and the absence of the row is no error. The
  one classified error the spec names is the schema-exists condition of CREATE TABLE;
  failures of the gateway itself (network, consistency) are the failures of an arbitrary
  \<open>env\<close>. Claim identifiers are generated in increasing order.\<close>

record claim_record =
  cr_table :: string
  cr_lock :: string
  cr_claim :: nat
  cr_expiry :: int

record store =
  now :: int
  tables :: "string list"
  claims :: "claim_record list"
  uuids :: nat

definition keyed :: "string \<Rightarrow> string \<Rightarrow> nat \<Rightarrow> claim_record \<Rightarrow> bool" where
  "keyed cf l c r = (cr_table r = cf \<and> cr_lock r = l \<and> cr_claim r = c)"

definition live_rows :: "store \<Rightarrow> string \<Rightarrow> string \<Rightarrow> claim_record list" where
  "live_rows s cf l =
     filter (\<lambda>r. cr_table r = cf \<and> cr_lock r = l \<and> now s < cr_expiry r) (claims s)"

definition live :: "store \<Rightarrow> string \<Rightarrow> string \<Rightarrow> nat \<Rightarrow> bool" where
  "live s cf l c = (c \<in> set (map cr_claim (live_rows s cf l)))"

definition stored :: "store \<Rightarrow> string \<Rightarrow> string \<Rightarrow> nat \<Rightarrow> bool" where
  "stored s cf l c = (filter (keyed cf l c) (claims s) \<noteq> [])"

definition as_row :: "claim_record \<Rightarrow> row" where
  "as_row r = \<lparr>lockId = cr_lock r, claimId = cr_claim r\<rparr>"

fun store_respond :: "statement \<Rightarrow> ConsistencyLevel \<Rightarrow> store \<Rightarrow> (failure + row list) \<times> store" where
  "store_respond (Insert cf l c t) lvl s =
     (Inr [],
      s\<lparr>claims := \<lparr>cr_table = cf, cr_lock = l, cr_claim = c, cr_expiry = now s + t\<rparr>
                    # filter (\<lambda>r. \<not> keyed cf l c r) (claims s)\<rparr>)"
| "store_respond (Select cf l) lvl s =
     (Inr (sort_key claimId (map as_row (live_rows s cf l))), s)"
| "store_respond (Delete cf l c) lvl s =
     (Inr [], s\<lparr>claims := filter (\<lambda>r. \<not> keyed cf l c r) (claims s)\<rparr>)"
| "store_respond (CreateTable cf) lvl s =
     (if cf \<in> set (tables s)
      then (Inl (InvalidRequestException ''Cannot add already existing column family''), s)
      else (Inr [], s\<lparr>tables := cf # tables s\<rparr>))"
| "store_respond (DropTable cf) lvl s =
     (Inr [], s\<lparr>tables := removeAll cf (tables s),
                 claims := filter (\<lambda>r. cr_table r \<noteq> cf) (claims s)\<rparr>)"

definition store_env :: "store env" where
  "store_env =
     \<lparr>respond = store_respond,
      elapse = (\<lambda>dt s. s\<lparr>now := now s + dt\<rparr>),
      fresh_uuid = (\<lambda>s. (uuids s, s\<lparr>uuids := Suc (uuids s)\<rparr>))\<rparr>"

text \<open>The same store behind a gateway that fails every statement in \<open>broken\<close> with the
  failure \<open>f\<close>, leaving the store as it is.\<close>

definition failing_env :: "(statement \<Rightarrow> bool) \<Rightarrow> failure \<Rightarrow> store env" where
  "failing_env broken f =
     store_env\<lparr>respond := (\<lambda>st lvl s. if broken st then (Inl f, s) else store_respond st lvl s)\<rparr>"

text \<open>The same store behind a gateway on which every statement takes \<open>latency\<close>
  seconds to arrive.\<close>

definition slow_env :: "int \<Rightarrow> store env" where
  "slow_env latency =
     store_env\<lparr>respond := (\<lambda>st lvl s. store_respond st lvl (s\<lparr>now := now s + latency\<rparr>))\<rparr>"

text \<open>A gateway that answers every statement with the one row of a claim \<open>c\<close> on the
  lock name \<open>l\<close>: the lock is held by \<open>c\<close> for good.\<close>

definition held_env :: "string \<Rightarrow> nat \<Rightarrow> unit env" where
  "held_env l c =
     \<lparr>respond = (\<lambda>st lvl b. (Inr [\<lparr>lockId = l, claimId = c\<rparr>], b)),
      elapse = (\<lambda>dt b. b),
      fresh_uuid = (\<lambda>b. (Suc c, b))\<rparr>"

fun is_Delete :: "statement \<Rightarrow> bool" where
  "is_Delete (Delete cf l c) = True"
| "is_Delete st = False"

fun is_Select :: "statement \<Rightarrow> bool" where
  "is_Select (Select cf l) = True"
| "is_Select st = False"

fun is_CreateTable :: "statement \<Rightarrow> bool" where
  "is_CreateTable (CreateTable cf) = True"
| "is_CreateTable st = False"

definition empty_store :: store where
  "empty_store = \<lparr>now = 0, tables = [''locks''], claims = [], uuids = 1\<rparr>"

definition start :: "'b \<Rightarrow> 'b world" where
  "start b = \<lparr>trace = [], backend = b\<rparr>"

text \<open>The scenario of the spec: the lock name "jobs-queue" in the table "locks", a
  time-to-live of 5 seconds, and two engines \<open>A\<close> and \<open>B\<close> whose claim identifiers are
  1 and 2.\<close>

definition engine_A :: BasicLock where
  "engine_A = \<lparr>lock_table = ''locks'', lock_id = ''jobs-queue'', claim_id = 1, ttl = 5\<rparr>"

definition engine_B :: BasicLock where
  "engine_B = \<lparr>lock_table = ''locks'', lock_id = ''jobs-queue'', claim_id = 2, ttl = 5\<rparr>"

text \<open>The lock held by a claim 1 that lives for 300 seconds.\<close>

definition held_store :: store where
  "held_store =
     \<lparr>now = 0, tables = [''locks''],
      claims = [\<lparr>cr_table = ''locks'', cr_lock = ''jobs-queue'', cr_claim = 1, cr_expiry = 300\<rparr>],
      uuids = 3\<rparr>"

definition both_written :: store where
  "both_written =
     \<lparr>now = 0, tables = [''locks''],
      claims = [\<lparr>cr_table = ''locks'', cr_lock = ''jobs-queue'', cr_claim = 2, cr_expiry = 5\<rparr>,
                \<lparr>cr_table = ''locks'', cr_lock = ''jobs-queue'', cr_claim = 1, cr_expiry = 5\<rparr>],
      uuids = 3\<rparr>"

section \<open>Properties\<close>

subsection \<open>What one statement does to the world\<close>

lemma execute_trace:
  "trace (snd (execute env st lvl w)) = trace w @ [Executed st lvl]"
  by (simp add: execute_def split: prod.splits)

lemma execute_fst:
  "fst (execute env st lvl w) = fst (respond env st lvl (backend w))"
  by (simp add: execute_def split: prod.splits)

lemma execute_backend:
  "backend (snd (execute env st lvl w)) = snd (respond env st lvl (backend w))"
  by (simp add: execute_def split: prod.splits)

subsection \<open>Failures other than BusyLockError\<close>

text \<open>C4. A failure of an attempt that is not a BusyLockError leaves the errback
  \<open>_lock_not_acquired\<close> as it entered it: the same failure, the retry count unchanged, no
  further event in the world. So \<open>acquire\<close> fails with it as soon as the first attempt
  does, and a retry (the attempt made in the world \<open>v\<close> that follows the delay) that
  fails with it ends the loop with the count of that retry.\<close>

theorem non_busy_failure_propagates:
  assumes "\<not> is_BusyLockError f"
  shows "lock_not_acquired env lk max_retry timeout f (retries, w) = (Inl f, retries, w)
    \<and> (acquire_lock env lk w = (Inl f, w') \<longrightarrow>
         acquire env lk max_retry timeout w = (Inl f, w'))
    \<and> (is_BusyLockError g \<and> retries + 1 \<le> max_retry
          \<and> deferLater env timeout w = Inr v \<and> acquire_lock env lk v = (Inl f, w') \<longrightarrow>
         lock_not_acquired env lk max_retry timeout g (retries, w) = (Inl f, retries + 1, w'))"
proof (intro conjI impI)
  show first: "\<And>r v. lock_not_acquired env lk max_retry timeout f (r, v) = (Inl f, r, v)"
    using assms by (simp add: lock_not_acquired.simps)
  show "acquire env lk max_retry timeout w = (Inl f, w')"
    if "acquire_lock env lk w = (Inl f, w')"
    using that first by (simp add: acquire_def)
  show "lock_not_acquired env lk max_retry timeout g (retries, w) = (Inl f, retries + 1, w')"
    if "is_BusyLockError g \<and> retries + 1 \<le> max_retry
          \<and> deferLater env timeout w = Inr v \<and> acquire_lock env lk v = (Inl f, w')"
    using that first by (simp add: lock_not_acquired.simps [of _ _ _ _ g])
qed

theorem non_busy_failure_propagates_witness:
  "\<not> is_BusyLockError (OtherException ''UnavailableException'')
   \<and> lock_not_acquired (failing_env is_Select (OtherException ''UnavailableException'')) engine_A 5 10
        (OtherException ''UnavailableException'') (0, start empty_store)
      = (Inl (OtherException ''UnavailableException''), 0, start empty_store)
   \<and> fst (acquire (failing_env is_Select (OtherException ''UnavailableException'')) engine_A 5 10
        (start empty_store)) = Inl (OtherException ''UnavailableException'')
   \<and> attempts (trace (snd (acquire (failing_env is_Select (OtherException ''UnavailableException''))
        engine_A 5 10 (start empty_store)))) = 1"
  using non_busy_failure_propagates [of "OtherException ''UnavailableException''"
      "failing_env is_Select (OtherException ''UnavailableException'')" engine_A 5 10 0
      "start empty_store"
      "snd (acquire_lock (failing_env is_Select (OtherException ''UnavailableException''))
         engine_A (start empty_store))" _ "start empty_store"]
  by (simp add: acquire_lock_def write_lock_def read_lock_def execute_def addCallback_def
      failing_env_def store_env_def engine_A_def start_def empty_store_def attempts_def)

lemma release_trace:
  "trace (snd (release env lk w)) =
     trace w @ [Executed (Delete (lock_table lk) (lock_id lk) (claim_id lk)) QUORUM]"
  by (simp add: release_def execute_trace)

subsection \<open>The verify step\<close>

text \<open>C10. On an empty response \<open>_verify_lock\<close> fails with the IndexError of
  \<open>response[0]\<close>: no success, no BusyLockError, no release. On a response with a first
  row it succeeds, or fails with the BusyLockError, or fails with the failure of its
  release. So an attempt whose write succeeds and whose read returns no row fails with
  IndexError, and \<open>acquire\<close> fails with it at once (it is no BusyLockError).\<close>

theorem verify_lock_empty_response:
  "verify_lock env lk [] w = (Inl IndexError, w)
   \<and> (fst (verify_lock env lk (r # rest) w) = Inr True
      \<or> fst (verify_lock env lk (r # rest) w) = Inl (BusyLockError_init (lock_table lk) (lock_id lk))
      \<or> (\<exists>f. fst (release env lk w) = Inl f \<and> fst (verify_lock env lk (r # rest) w) = Inl f))
   \<and> (write_lock env lk w = (Inr x, w1) \<and> read_lock env lk x w1 = (Inr [], w2) \<longrightarrow>
        acquire_lock env lk w = (Inl IndexError, w2)
        \<and> acquire env lk max_retry timeout w = (Inl IndexError, w2))"
proof (intro conjI impI)
  show "verify_lock env lk [] w = (Inl IndexError, w)"
    by (simp add: verify_lock_def)
  show "fst (verify_lock env lk (r # rest) w) = Inr True
      \<or> fst (verify_lock env lk (r # rest) w) = Inl (BusyLockError_init (lock_table lk) (lock_id lk))
      \<or> (\<exists>f. fst (release env lk w) = Inl f \<and> fst (verify_lock env lk (r # rest) w) = Inl f)"
    by (cases "release env lk w" ; cases "fst (release env lk w)")
       (auto simp: verify_lock_def addCallback_def)
  assume a: "write_lock env lk w = (Inr x, w1) \<and> read_lock env lk x w1 = (Inr [], w2)"
  then show al: "acquire_lock env lk w = (Inl IndexError, w2)"
    by (simp add: acquire_lock_def addCallback_def verify_lock_def)
  then show "acquire env lk max_retry timeout w = (Inl IndexError, w2)"
    by (simp add: acquire_def lock_not_acquired.simps)
qed

theorem verify_lock_empty_response_witness:
  "verify_lock (slow_env 6) engine_B [] (start empty_store) = (Inl IndexError, start empty_store)
   \<and> fst (read_lock (slow_env 6) engine_B []
        (snd (write_lock (slow_env 6) engine_B (start empty_store)))) = Inr []
   \<and> fst (acquire (slow_env 6) engine_B 5 10 (start empty_store)) = Inl IndexError
   \<and> attempts (trace (snd (acquire (slow_env 6) engine_B 5 10 (start empty_store)))) = 1
   \<and> stored (backend (snd (acquire (slow_env 6) engine_B 5 10 (start empty_store))))
        ''locks'' ''jobs-queue'' 2"
  using verify_lock_empty_response [of "slow_env 6" engine_B "start empty_store" _ _ "[]"
      "snd (write_lock (slow_env 6) engine_B (start empty_store))"
      "snd (read_lock (slow_env 6) engine_B []
         (snd (write_lock (slow_env 6) engine_B (start empty_store))))" 5 10]
  by (simp add: write_lock_def read_lock_def execute_def slow_env_def store_env_def engine_B_def
      start_def empty_store_def attempts_def live_rows_def stored_def keyed_def)

text \<open>C8, as the code has it. When the first row carries the engine's own claim
  identifier, the attempt succeeds and the world is untouched. When it carries another,
  the engine issues the one DELETE of its own claim record; if that DELETE succeeds, the
  attempt fails with the BusyLockError whose message names the lock name and the lock
  table; if the DELETE fails, the attempt fails with the failure of the DELETE.\<close>

theorem verify_lock_first_row:
  "(claimId r = claim_id lk \<longrightarrow> verify_lock env lk (r # rest) w = (Inr True, w))
   \<and> (claimId r \<noteq> claim_id lk \<longrightarrow>
        snd (verify_lock env lk (r # rest) w) = snd (release env lk w)
        \<and> trace (snd (verify_lock env lk (r # rest) w)) =
            trace w @ [Executed (Delete (lock_table lk) (lock_id lk) (claim_id lk)) QUORUM]
        \<and> fst (verify_lock env lk (r # rest) w) =
            (case fst (release env lk w) of
               Inl f \<Rightarrow> Inl f
             | Inr x \<Rightarrow> Inl (BusyLockError
                 (''Unable to acquire lock '' @ lock_id lk @ '' on '' @ lock_table lk))))"
proof (intro conjI impI)
  assume "claimId r = claim_id lk"
  then show "verify_lock env lk (r # rest) w = (Inr True, w)"
    by (simp add: verify_lock_def)
next
  assume other: "claimId r \<noteq> claim_id lk"
  then show same: "snd (verify_lock env lk (r # rest) w) = snd (release env lk w)"
    by (simp add: verify_lock_def addCallback_def split: prod.splits sum.splits)
  show "trace (snd (verify_lock env lk (r # rest) w)) =
      trace w @ [Executed (Delete (lock_table lk) (lock_id lk) (claim_id lk)) QUORUM]"
    by (simp only: same release_trace)
  show "fst (verify_lock env lk (r # rest) w) =
      (case fst (release env lk w) of
         Inl f \<Rightarrow> Inl f
       | Inr x \<Rightarrow> Inl (BusyLockError
           (''Unable to acquire lock '' @ lock_id lk @ '' on '' @ lock_table lk)))"
    using other
    by (simp add: verify_lock_def addCallback_def BusyLockError_init_def
        split: prod.splits sum.splits)
qed

theorem verify_lock_first_row_witness:
  "verify_lock store_env engine_A
     [\<lparr>lockId = ''jobs-queue'', claimId = 1\<rparr>, \<lparr>lockId = ''jobs-queue'', claimId = 2\<rparr>]
     (start both_written) = (Inr True, start both_written)
   \<and> fst (verify_lock store_env engine_B
     [\<lparr>lockId = ''jobs-queue'', claimId = 1\<rparr>, \<lparr>lockId = ''jobs-queue'', claimId = 2\<rparr>]
     (start both_written)) = Inl (BusyLockError ''Unable to acquire lock jobs-queue on locks'')
   \<and> trace (snd (verify_lock store_env engine_B
     [\<lparr>lockId = ''jobs-queue'', claimId = 1\<rparr>, \<lparr>lockId = ''jobs-queue'', claimId = 2\<rparr>]
     (start both_written))) = [Executed (Delete ''locks'' ''jobs-queue'' 2) QUORUM]"
  using verify_lock_first_row [of "\<lparr>lockId = ''jobs-queue'', claimId = 1\<rparr>" engine_A store_env
      "[\<lparr>lockId = ''jobs-queue'', claimId = 2\<rparr>]" "start both_written"]
    verify_lock_first_row [of "\<lparr>lockId = ''jobs-queue'', claimId = 1\<rparr>" engine_B store_env
      "[\<lparr>lockId = ''jobs-queue'', claimId = 2\<rparr>]" "start both_written"]
  by (simp add: release_def execute_def store_env_def engine_A_def engine_B_def start_def
      both_written_def)

text \<open>C8 as claimed fails where the cleanup fails: the first row is another claim's,
  the DELETE times out, and the attempt ends with the timeout, not with a BusyLockError;
  the engine's record stays in the store.\<close>

theorem verify_lock_failed_cleanup_counterexample:
  "claimId \<lparr>lockId = ''jobs-queue'', claimId = 1\<rparr> \<noteq> claim_id engine_B
   \<and> fst (verify_lock (failing_env is_Delete (OtherException ''TimedOutException'')) engine_B
     [\<lparr>lockId = ''jobs-queue'', claimId = 1\<rparr>, \<lparr>lockId = ''jobs-queue'', claimId = 2\<rparr>]
     (start both_written)) = Inl (OtherException ''TimedOutException'')
   \<and> stored (backend (snd (verify_lock (failing_env is_Delete (OtherException ''TimedOutException''))
       engine_B
       [\<lparr>lockId = ''jobs-queue'', claimId = 1\<rparr>, \<lparr>lockId = ''jobs-queue'', claimId = 2\<rparr>]
       (start both_written)))) ''locks'' ''jobs-queue'' 2"
  by (simp add: verify_lock_def addCallback_def release_def execute_def failing_env_def
      store_env_def engine_B_def start_def both_written_def stored_def keyed_def)

subsection \<open>Schema setup\<close>

text \<open>C5, as the code has it. \<open>ensure_schema\<close> issues the one CREATE TABLE; it returns
  its rows when it succeeds, swallows its failure when that is an
  InvalidRequestException, whatever the reason given (the table-already-exists error is
  one of them), and propagates a failure of any other type.\<close>

theorem ensure_schema_traps_invalid_request:
  "fst (ensure_schema env table_name w) =
     (case fst (execute env (CreateTable table_name) QUORUM w) of
        Inl f \<Rightarrow> if is_InvalidRequestException f then Inr None else Inl f
      | Inr rows \<Rightarrow> Inr (Some rows))
   \<and> snd (ensure_schema env table_name w) = snd (execute env (CreateTable table_name) QUORUM w)"
  by (cases "execute env (CreateTable table_name) QUORUM w";
      cases "fst (execute env (CreateTable table_name) QUORUM w)")
     (auto simp: ensure_schema_def addErrback_def addCallback_def)

text \<open>C5 as claimed fails on an InvalidRequestException that is not the schema-exists
  condition: the one of a malformed statement is swallowed as well.\<close>

theorem ensure_schema_malformed_counterexample:
  "fst (ensure_schema
     (failing_env is_CreateTable (InvalidRequestException ''line 1:0 no viable alternative at input''))
     ''locks'' (start empty_store)) = Inr None"
  by (simp add: ensure_schema_def addErrback_def addCallback_def execute_def failing_env_def
      store_env_def start_def empty_store_def)

subsection \<open>One bidder per engine\<close>

text \<open>Every event of a callback chain continues the trace; the lemmas below carry a
  property of the events through \<open>addCallback\<close>, one attempt and the retry loop.\<close>

lemma extends_refl: "extends P w w"
  by (simp add: extends_def)

lemma extendsI:
  "trace w' = trace w @ evs \<Longrightarrow> list_all P evs \<Longrightarrow> extends P w w'"
  by (simp add: extends_def)

lemma extendsD:
  "extends P w w' \<Longrightarrow> \<exists>evs. trace w' = trace w @ evs \<and> list_all P evs"
  unfolding extends_def
  by (metis append_take_drop_id)

lemma extends_trans:
  assumes "extends P w w'" and "extends P w' w''"
  shows "extends P w w''"
proof -
  obtain xs where xs: "trace w' = trace w @ xs" "list_all P xs"
    using extendsD [OF assms(1)] by blast
  obtain ys where ys: "trace w'' = trace w' @ ys" "list_all P ys"
    using extendsD [OF assms(2)] by blast
  have "trace w'' = trace w @ (xs @ ys)"
    using xs ys by simp
  moreover have "list_all P (xs @ ys)"
    using xs ys by simp
  ultimately show ?thesis
    by (rule extendsI)
qed

lemma extends_execute:
  "P (Executed st lvl) \<Longrightarrow> extends P w (snd (execute env st lvl w))"
  by (rule extendsI [where evs = "[Executed st lvl]"]) (simp_all add: execute_trace)

lemma extends_delayed:
  "P (Waited timeout) \<Longrightarrow> extends P w (delayed env timeout w)"
  by (rule extendsI [where evs = "[Waited timeout]"]) (simp_all add: delayed_def)

lemma deferLater_Inr:
  "deferLater env timeout w = Inr v \<Longrightarrow> 0 \<le> timeout \<and> v = delayed env timeout w"
  by (simp add: deferLater_def split: if_splits)

lemma extends_addCallback:
  assumes "extends P w (snd d)" and "\<And>x v. extends P v (snd (f x v))"
  shows "extends P w (snd (addCallback d f))"
proof (cases d)
  case (Pair r v)
  show ?thesis
  proof (cases r)
    case (Inl e)
    with Pair assms(1) show ?thesis by (simp add: addCallback_def)
  next
    case (Inr x)
    have "extends P v (snd (f x v))" by (rule assms(2))
    with Pair Inr assms(1) show ?thesis
      by (auto simp: addCallback_def intro: extends_trans)
  qed
qed

lemma extends_release: "extends (by_bidder lk) w (snd (release env lk w))"
  unfolding release_def by (rule extends_execute) simp

lemma extends_verify_lock: "extends (by_bidder lk) w (snd (verify_lock env lk response w))"
proof (cases response)
  case Nil
  then show ?thesis by (simp add: verify_lock_def extends_refl)
next
  case (Cons r rest)
  show ?thesis
  proof (cases "claimId r = claim_id lk")
    case True
    with Cons show ?thesis by (simp add: verify_lock_def extends_refl)
  next
    case False
    have "extends (by_bidder lk) w (snd (addCallback (release env lk w)
        (\<lambda>x w'. (Inl (BusyLockError_init (lock_table lk) (lock_id lk)) :: failure + bool, w'))))"
      by (rule extends_addCallback) (simp_all add: extends_release extends_refl)
    with Cons False show ?thesis by (simp add: verify_lock_def)
  qed
qed

lemma extends_acquire_lock: "extends (by_bidder lk) w (snd (acquire_lock env lk w))"
  unfolding acquire_lock_def
proof (intro extends_addCallback)
  show "extends (by_bidder lk) w (snd (write_lock env lk w))"
    unfolding write_lock_def by (rule extends_execute) simp
  show "\<And>x v. extends (by_bidder lk) v (snd (read_lock env lk x v))"
    unfolding read_lock_def by (rule extends_execute) simp
  show "\<And>x v. extends (by_bidder lk) v (snd (verify_lock env lk x v))"
    by (rule extends_verify_lock)
qed

lemma extends_lock_not_acquired:
  "extends (by_bidder lk) (snd rw)
     (snd (snd (lock_not_acquired env lk max_retry timeout f rw)))"
proof (induction env lk max_retry timeout f rw rule: lock_not_acquired.induct)
  case (1 env lk max_retry timeout failure retries w)
  show ?case
  proof (cases "is_BusyLockError failure \<and> retries + 1 \<le> max_retry")
    case False
    then show ?thesis
      by (auto simp: lock_not_acquired.simps [of _ _ _ _ failure] extends_refl)
  next
    case True
    show ?thesis
    proof (cases "deferLater env timeout w")
      case (Inl raised)
      with True show ?thesis
        by (simp add: lock_not_acquired.simps [of _ _ _ _ failure] extends_refl)
    next
      case (Inr v)
      then have v: "v = delayed env timeout w"
        using deferLater_Inr by blast
      obtain x y where xy: "acquire_lock env lk v = (x, y)"
        by (cases "acquire_lock env lk v")
      have step: "extends (by_bidder lk) w y"
      proof (rule extends_trans)
        show "extends (by_bidder lk) w v"
          unfolding v by (rule extends_delayed) simp
        show "extends (by_bidder lk) v y"
          using extends_acquire_lock [of lk v env] xy by simp
      qed
      show ?thesis
      proof (cases x)
        case ok: (Inr ok)
        with True Inr xy step show ?thesis
          by (simp add: lock_not_acquired.simps [of _ _ _ _ failure])
      next
        case (Inl a)
        have "extends (by_bidder lk) (snd (retries + 1, y))
           (snd (snd (lock_not_acquired env lk max_retry timeout a (retries + 1, y))))"
          using True Inr xy Inl by (intro "1.IH") auto
        then have "extends (by_bidder lk) w
           (snd (snd (lock_not_acquired env lk max_retry timeout a (retries + 1, y))))"
          using step by (auto intro: extends_trans)
        with True Inr xy Inl show ?thesis
          by (simp add: lock_not_acquired.simps [of _ _ _ _ failure])
      qed
    qed
  qed
qed

lemma extends_acquire:
  "extends (by_bidder lk) w (snd (acquire env lk max_retry timeout w))"
proof (cases "acquire_lock env lk w")
  case (Pair x y)
  have first: "extends (by_bidder lk) w y"
    using extends_acquire_lock [of lk w env] Pair by simp
  show ?thesis
  proof (cases x)
    case (Inr ok)
    with Pair first show ?thesis by (simp add: acquire_def)
  next
    case (Inl a)
    have "extends (by_bidder lk) y
        (snd (snd (lock_not_acquired env lk max_retry timeout a (0, y))))"
      using extends_lock_not_acquired [of lk "(0, y)" env max_retry timeout a] by simp
    with first have "extends (by_bidder lk) w
        (snd (snd (lock_not_acquired env lk max_retry timeout a (0, y))))"
      by (rule extends_trans)
    moreover obtain r n v where rnv: "lock_not_acquired env lk max_retry timeout a (0, y) = (r, n, v)"
      by (cases "lock_not_acquired env lk max_retry timeout a (0, y)")
    ultimately show ?thesis
      using Pair Inl by (simp add: acquire_def)
  qed
qed

text \<open>C2. Constructing an engine generates exactly one claim identifier, the one the
  engine holds, and executes no statement. A whole \<open>acquire\<close>, over all its retries,
  adds to the trace only events of that bidder: every INSERT and every DELETE binds the
  engine's claim identifier, every statement is on its table and lock name, and no
  claim identifier is generated. The verify step succeeds exactly when the first row
  carries that identifier.\<close>

theorem one_claim_id_per_engine:
  "trace (snd (BasicLock_init env tbl lid t w)) =
     trace w @ [Generated (claim_id (fst (BasicLock_init env tbl lid t w)))]
   \<and> extends (by_bidder lk) w (snd (acquire env lk max_retry timeout w))
   \<and> (fst (verify_lock env lk (r # rest) w) = Inr True) = (claimId r = claim_id lk)"
proof (intro conjI)
  show "trace (snd (BasicLock_init env tbl lid t w)) =
     trace w @ [Generated (claim_id (fst (BasicLock_init env tbl lid t w)))]"
    by (simp add: BasicLock_init_def uuid1_def split: prod.splits)
  show "extends (by_bidder lk) w (snd (acquire env lk max_retry timeout w))"
    by (rule extends_acquire)
  show "(fst (verify_lock env lk (r # rest) w) = Inr True) = (claimId r = claim_id lk)"
    by (auto simp: verify_lock_def addCallback_def split: prod.splits sum.splits)
qed

subsection \<open>The retry bound\<close>

text \<open>Each attempt issues exactly one INSERT, whatever its outcome; a delay issues none.\<close>

lemma attempts_acquire_lock:
  "attempts (trace (snd (acquire_lock env lk w))) = attempts (trace w) + 1"
  by (auto simp: acquire_lock_def write_lock_def read_lock_def verify_lock_def release_def
      execute_def addCallback_def attempts_def split: prod.splits sum.splits list.splits)

lemma attempts_delayed:
  "attempts (trace (delayed env timeout w)) = attempts (trace w)"
  by (simp add: delayed_def attempts_def)

lemma lock_not_acquired_all_busy:
  "0 \<le> timeout \<Longrightarrow> is_BusyLockError f \<Longrightarrow>
   all_busy env lk timeout (nat (max_retry - fst rw)) (delayed env timeout (snd rw)) \<Longrightarrow>
    busy_outcome (fst (lock_not_acquired env lk max_retry timeout f rw))
    \<and> attempts (trace (snd (snd (lock_not_acquired env lk max_retry timeout f rw)))) =
        attempts (trace (snd rw)) + nat (max_retry - fst rw)"
proof (induction env lk max_retry timeout f rw rule: lock_not_acquired.induct)
  case (1 env lk max_retry timeout failure retries w)
  show ?case
  proof (cases "retries + 1 \<le> max_retry")
    case False
    with "1.prems" show ?thesis
      by (simp add: lock_not_acquired.simps [of _ _ _ _ failure])
  next
    case True
    let ?v = "delayed env timeout w"
    have later: "deferLater env timeout w = Inr ?v"
      using "1.prems"(1) by (simp add: deferLater_def)
    have count: "nat (max_retry - retries) = Suc (nat (max_retry - (retries + 1)))"
      using True by simp
    obtain x y where xy: "acquire_lock env lk ?v = (x, y)"
      by (cases "acquire_lock env lk ?v")
    have run: "all_busy env lk timeout (Suc (nat (max_retry - (retries + 1)))) ?v"
      using "1.prems"(3) count by simp
    then obtain a where a: "x = Inl a" "is_BusyLockError a"
      and rest: "all_busy env lk timeout (nat (max_retry - (retries + 1))) (delayed env timeout y)"
      using xy by (cases x) auto
    have y: "attempts (trace y) = attempts (trace w) + 1"
      using attempts_acquire_lock [of env lk ?v] xy by (simp add: attempts_delayed)
    have IH: "busy_outcome (fst (lock_not_acquired env lk max_retry timeout a (retries + 1, y)))
      \<and> attempts (trace (snd (snd (lock_not_acquired env lk max_retry timeout a (retries + 1, y))))) =
          attempts (trace (snd (retries + 1, y))) + nat (max_retry - fst (retries + 1, y))"
      using "1.prems" True later xy a rest by (intro "1.IH") auto
    have unfold: "lock_not_acquired env lk max_retry timeout failure (retries, w) =
        lock_not_acquired env lk max_retry timeout a (retries + 1, y)"
      using "1.prems"(2) True later xy a
      by (simp add: lock_not_acquired.simps [of _ _ _ _ failure])
    from IH y unfold count show ?thesis
      by simp
  qed
qed

lemma acquire_all_busy:
  assumes "0 \<le> N" and "0 \<le> timeout" and "all_busy env lk timeout (nat N + 1) w"
  shows "busy_outcome (fst (acquire env lk N timeout w))
    \<and> attempts (trace (snd (acquire env lk N timeout w))) = attempts (trace w) + (nat N + 1)"
proof -
  obtain x y where xy: "acquire_lock env lk w = (x, y)"
    by (cases "acquire_lock env lk w")
  have "all_busy env lk timeout (Suc (nat N)) w"
    using assms(3) by simp
  then obtain a where a: "x = Inl a" "is_BusyLockError a"
    and rest: "all_busy env lk timeout (nat N) (delayed env timeout y)"
    using xy by (cases x) auto
  have y: "attempts (trace y) = attempts (trace w) + 1"
    using attempts_acquire_lock [of env lk w] xy by simp
  obtain r n v where rnv: "lock_not_acquired env lk N timeout a (0, y) = (r, n, v)"
    by (cases "lock_not_acquired env lk N timeout a (0, y)")
  have "busy_outcome r \<and> attempts (trace v) = attempts (trace y) + nat N"
    using lock_not_acquired_all_busy [OF assms(2) a(2), of env lk N "(0, y)"] rest rnv by simp
  moreover have "acquire env lk N timeout w = (r, v)"
    using xy a rnv by (simp add: acquire_def)
  ultimately show ?thesis
    using y by simp
qed

text \<open>Without any assumption on the outcomes, the retry loop never makes more attempts
  than the retries it has left.\<close>

lemma lock_not_acquired_attempts_le:
  "attempts (trace (snd (snd (lock_not_acquired env lk max_retry timeout f rw)))) \<le>
     attempts (trace (snd rw)) + nat (max_retry - fst rw)"
proof (induction env lk max_retry timeout f rw rule: lock_not_acquired.induct)
  case (1 env lk max_retry timeout failure retries w)
  show ?case
  proof (cases "is_BusyLockError failure \<and> retries + 1 \<le> max_retry")
    case False
    then show ?thesis
      by (auto simp: lock_not_acquired.simps [of _ _ _ _ failure])
  next
    case True
    show ?thesis
    proof (cases "deferLater env timeout w")
      case (Inl raised)
      with True show ?thesis
        by (simp add: lock_not_acquired.simps [of _ _ _ _ failure])
    next
      case (Inr v)
      then have v: "v = delayed env timeout w"
        using deferLater_Inr by blast
      obtain x y where xy: "acquire_lock env lk v = (x, y)"
        by (cases "acquire_lock env lk v")
      have y: "attempts (trace y) = attempts (trace w) + 1"
        using attempts_acquire_lock [of env lk v] xy by (simp add: v attempts_delayed)
      have "retries + 1 \<le> max_retry"
        using True by simp
      then have count: "nat (max_retry - retries) = Suc (nat (max_retry - (retries + 1)))"
        by simp
      show ?thesis
      proof (cases x)
        case ok: (Inr ok)
        with True Inr xy y count show ?thesis
          by (simp add: lock_not_acquired.simps [of _ _ _ _ failure])
      next
        case (Inl a)
        have "attempts (trace (snd (snd (lock_not_acquired env lk max_retry timeout a
             (retries + 1, y))))) \<le>
           attempts (trace (snd (retries + 1, y))) + nat (max_retry - fst (retries + 1, y))"
          using True Inr xy Inl by (intro "1.IH") auto
        with True Inr xy Inl y count show ?thesis
          by (simp add: lock_not_acquired.simps [of _ _ _ _ failure])
      qed
    qed
  qed
qed

lemma acquire_attempts_le:
  "attempts (trace (snd (acquire env lk N timeout w))) \<le> attempts (trace w) + (nat N + 1)"
proof -
  obtain x y where xy: "acquire_lock env lk w = (x, y)"
    by (cases "acquire_lock env lk w")
  have y: "attempts (trace y) = attempts (trace w) + 1"
    using attempts_acquire_lock [of env lk w] xy by simp
  show ?thesis
  proof (cases x)
    case (Inr ok)
    with xy y show ?thesis
      by (simp add: acquire_def)
  next
    case (Inl a)
    obtain r n v where rnv: "lock_not_acquired env lk N timeout a (0, y) = (r, n, v)"
      by (cases "lock_not_acquired env lk N timeout a (0, y)")
    have "attempts (trace v) \<le> attempts (trace y) + nat N"
      using lock_not_acquired_attempts_le [of env lk N timeout a "(0, y)"] rnv by simp
    with xy Inl rnv y show ?thesis
      by (simp add: acquire_def)
  qed
qed

text \<open>C3, as the code has it. With a retry delay that is not negative and under
  persistent contention over the run (each of the \<open>N + 1\<close> attempts of the run ends in
  a BusyLockError), \<open>acquire\<close> with \<open>max_retry = N\<close>, \<open>N \<ge> 0\<close>, makes exactly
  \<open>N + 1\<close> attempts and then fails with a BusyLockError; with the defaults
  (\<open>max_retry = 5\<close>, a delay of 10 seconds) that is 6 attempts. Whatever the outcomes
  and the delay, it never makes more than \<open>N + 1\<close> attempts.\<close>

theorem retry_bound:
  assumes "0 \<le> N" and "0 \<le> timeout" and "all_busy env lk timeout (nat N + 1) w"
  shows "busy_outcome (fst (acquire env lk N timeout w))
    \<and> attempts (trace (snd (acquire env lk N timeout w))) = attempts (trace w) + (nat N + 1)
    \<and> (all_busy env lk default_timeout 6 w \<longrightarrow>
         busy_outcome (fst (acquire env lk default_max_retry default_timeout w))
         \<and> attempts (trace (snd (acquire env lk default_max_retry default_timeout w))) =
             attempts (trace w) + 6)
    \<and> attempts (trace (snd (acquire env' lk' M timeout' w'))) \<le> attempts (trace w') + (nat M + 1)"
proof (intro conjI impI)
  show "busy_outcome (fst (acquire env lk N timeout w))"
    using acquire_all_busy [OF assms] by simp
  show "attempts (trace (snd (acquire env lk N timeout w))) = attempts (trace w) + (nat N + 1)"
    using acquire_all_busy [OF assms] by simp
  show "attempts (trace (snd (acquire env' lk' M timeout' w'))) \<le> attempts (trace w') + (nat M + 1)"
    by (rule acquire_attempts_le)
next
  assume "all_busy env lk default_timeout 6 w"
  then have six: "busy_outcome (fst (acquire env lk default_max_retry default_timeout w))
      \<and> attempts (trace (snd (acquire env lk default_max_retry default_timeout w))) =
          attempts (trace w) + (nat default_max_retry + 1)"
    by (intro acquire_all_busy) (simp_all add: default_max_retry_def default_timeout_def)
  from six show "busy_outcome (fst (acquire env lk default_max_retry default_timeout w))"
    by simp
  from six show "attempts (trace (snd (acquire env lk default_max_retry default_timeout w))) =
      attempts (trace w) + 6"
    by (simp add: default_max_retry_def)
qed

theorem retry_bound_witness:
  "(0::int) \<le> 2 \<and> (0::int) \<le> 10
   \<and> all_busy store_env engine_B 10 3 (start held_store)
   \<and> busy_outcome (fst (acquire store_env engine_B 2 10 (start held_store)))
   \<and> attempts (trace (snd (acquire store_env engine_B 2 10 (start held_store)))) = 3
   \<and> all_busy store_env engine_B default_timeout 6 (start held_store)
   \<and> attempts (trace (snd (acquire store_env engine_B default_max_retry default_timeout
        (start held_store)))) = 6"
proof -
  have step: "acquire_lock store_env engine_B
        \<lparr>trace = tr, backend = held_store\<lparr>now := t\<rparr>\<rparr> =
      (Inl (BusyLockError ''Unable to acquire lock jobs-queue on locks''),
       \<lparr>trace = tr @ [Executed (Insert ''locks'' ''jobs-queue'' 2 5) QUORUM,
                     Executed (Select ''locks'' ''jobs-queue'') QUORUM,
                     Executed (Delete ''locks'' ''jobs-queue'' 2) QUORUM],
        backend = held_store\<lparr>now := t\<rparr>\<rparr>)"
    if "0 \<le> t" "t < 200" for tr t
    using that
    by (simp add: acquire_lock_def write_lock_def read_lock_def verify_lock_def release_def
        execute_def addCallback_def store_env_def engine_B_def held_store_def live_rows_def
        as_row_def keyed_def BusyLockError_init_def)
  have wait: "delayed store_env 10 \<lparr>trace = tr, backend = held_store\<lparr>now := t\<rparr>\<rparr> =
      \<lparr>trace = tr @ [Waited 10], backend = held_store\<lparr>now := t + 10\<rparr>\<rparr>" for tr t
    by (simp add: delayed_def store_env_def)
  have init: "start held_store = \<lparr>trace = [], backend = held_store\<lparr>now := 0\<rparr>\<rparr>"
    by (simp add: start_def held_store_def)
  have three: "all_busy store_env engine_B 10 3 (start held_store)"
    by (simp add: init numeral_3_eq_3 step wait)
  have six: "all_busy store_env engine_B default_timeout 6 (start held_store)"
    by (simp add: init default_timeout_def eval_nat_numeral step wait)
  have N: "(0::int) \<le> 2" and t: "(0::int) \<le> 10"
    by simp_all
  have three': "all_busy store_env engine_B 10 (nat 2 + 1) (start held_store)"
    using three by (simp add: numeral_3_eq_3)
  have "attempts (trace (start held_store)) = 0"
    by (simp add: start_def attempts_def)
  with retry_bound [OF N t three', where env' = store_env and lk' = engine_B and M = 0
      and timeout' = 0 and w' = "start held_store"] three six
  show ?thesis
    by simp
qed

text \<open>C3 as claimed fails on a negative retry delay: the lock is held for good, the
  first attempt ends in a BusyLockError, and scheduling the first of the 2 retries
  raises the AssertionError of the reactor. \<open>acquire\<close> has made 1 attempt, not 3, and
  fails with the AssertionError, not with a BusyLockError.\<close>

theorem retry_negative_delay_counterexample:
  "busy_outcome (fst (acquire_lock (held_env ''jobs-queue'' 1) engine_B (start ())))
   \<and> fst (acquire (held_env ''jobs-queue'' 1) engine_B 2 (- 1) (start ())) = Inl AssertionError
   \<and> attempts (trace (snd (acquire (held_env ''jobs-queue'' 1) engine_B 2 (- 1) (start ())))) = 1"
  by (simp add: acquire_def lock_not_acquired.simps deferLater_def acquire_lock_def
      write_lock_def read_lock_def verify_lock_def release_def execute_def addCallback_def
      held_env_def engine_B_def start_def attempts_def BusyLockError_init_def)

subsection \<open>with_lock\<close>

text \<open>Once the lock is acquired, \<open>with_lock\<close> is the unit of work followed by
  \<open>release_lock\<close> on its outcome.\<close>

lemma with_lock_acquired:
  assumes "BasicLock_init env tbl lid t w = (lock, w0)"
    and "acquire env lock max_retry timeout w0 = (Inr ok, w1)"
    and "func w1 = (out, w2)"
  shows "with_lock env tbl lid func t max_retry timeout w = release_lock env lock out w2"
  using assms by (simp add: with_lock_def addCallback_def addBoth_def)

lemma BasicLock_init_fields:
  "BasicLock_init env tbl lid t w = (lock, w0) \<Longrightarrow>
     lock_table lock = tbl \<and> lock_id lock = lid \<and> ttl lock = t"
  by (auto simp: BasicLock_init_def split: prod.splits)

lemma release_lock_fst:
  "fst (release_lock env lk out w) = (case fst (release env lk w) of Inl f \<Rightarrow> Inl f | Inr x \<Rightarrow> out)"
  by (cases "release env lk w"; cases "fst (release env lk w)")
     (auto simp: release_lock_def addCallback_def)

lemma release_lock_snd:
  "snd (release_lock env lk out w) = snd (release env lk w)"
  by (cases "release env lk w"; cases "fst (release env lk w)")
     (auto simp: release_lock_def addCallback_def)

text \<open>C6, as the code has it. When the unit of work returns a result, the caller
  receives that result if the release that follows succeeds; if the release fails, the
  caller receives the failure of the release and the result is lost.\<close>

theorem with_lock_result_needs_release:
  assumes "BasicLock_init env tbl lid t w = (lock, w0)"
    and "acquire env lock max_retry timeout w0 = (Inr ok, w1)"
    and "func w1 = (Inr v, w2)"
  shows "(fst (release env lock w2) = Inr x \<longrightarrow>
            fst (with_lock env tbl lid func t max_retry timeout w) = Inr v)
       \<and> (fst (release env lock w2) = Inl f \<longrightarrow>
            fst (with_lock env tbl lid func t max_retry timeout w) = Inl f)"
  by (simp add: with_lock_acquired [where func = func, OF assms] release_lock_fst)

theorem with_lock_result_needs_release_witness:
  "fst (with_lock store_env ''locks'' ''jobs-queue'' (\<lambda>w. (Inr (42::int), w)) 300 5 10
      (start empty_store)) = Inr 42
   \<and> fst (with_lock (failing_env is_Delete (OtherException ''TimedOutException''))
      ''locks'' ''jobs-queue'' (\<lambda>w. (Inr (42::int), w)) 300 5 10 (start empty_store))
     = Inl (OtherException ''TimedOutException'')"
proof -
  let ?func = "\<lambda>w :: store world. (Inr (42::int) :: failure + int, w)"
  let ?bad = "failing_env is_Delete (OtherException ''TimedOutException'')"
  let ?lock = "\<lparr>lock_table = ''locks'', lock_id = ''jobs-queue'', claim_id = 1, ttl = 300\<rparr>"
  let ?w0 = "\<lparr>trace = [Generated 1], backend = empty_store\<lparr>uuids := 2\<rparr>\<rparr>"
  have init: "BasicLock_init store_env ''locks'' ''jobs-queue'' 300 (start empty_store) = (?lock, ?w0)"
    by (simp add: BasicLock_init_def uuid1_def store_env_def start_def empty_store_def)
  have init': "BasicLock_init ?bad ''locks'' ''jobs-queue'' 300 (start empty_store) = (?lock, ?w0)"
    by (simp add: BasicLock_init_def uuid1_def failing_env_def store_env_def start_def
        empty_store_def)
  have acq: "acquire store_env ?lock 5 10 ?w0 = (Inr True, snd (acquire store_env ?lock 5 10 ?w0))"
    by (simp add: acquire_def acquire_lock_def write_lock_def read_lock_def verify_lock_def
        execute_def addCallback_def store_env_def empty_store_def live_rows_def as_row_def
        keyed_def)
  have acq': "acquire ?bad ?lock 5 10 ?w0 = (Inr True, snd (acquire ?bad ?lock 5 10 ?w0))"
    by (simp add: acquire_def acquire_lock_def write_lock_def read_lock_def verify_lock_def
        execute_def addCallback_def failing_env_def store_env_def empty_store_def live_rows_def
        as_row_def keyed_def)
  have run: "?func w1 = (Inr 42, w1)" for w1
    by simp
  have "fst (release store_env ?lock (snd (acquire store_env ?lock 5 10 ?w0))) = Inr []"
    by (simp add: release_def execute_fst store_env_def)
  moreover have "fst (release ?bad ?lock (snd (acquire ?bad ?lock 5 10 ?w0)))
      = Inl (OtherException ''TimedOutException'')"
    by (simp add: release_def execute_fst failing_env_def store_env_def)
  ultimately show ?thesis
    using with_lock_result_needs_release [where func = "?func" and x = "[]", OF init acq run]
      with_lock_result_needs_release [where func = "?func"
        and f = "OtherException ''TimedOutException''", OF init' acq' run]
    by simp
qed

text \<open>C6 as claimed fails: the unit of work returns 42, the DELETE of the release
  times out, and \<open>with_lock\<close> fails with the timeout.\<close>

theorem with_lock_release_failure_counterexample:
  "fst (with_lock (failing_env is_Delete (OtherException ''TimedOutException''))
      ''locks'' ''jobs-queue'' (\<lambda>w. (Inr (42::int), w)) 300 5 10 (start empty_store))
     = Inl (OtherException ''TimedOutException'')"
  by (simp add: with_lock_def BasicLock_init_def uuid1_def acquire_def acquire_lock_def
      write_lock_def read_lock_def verify_lock_def release_lock_def release_def execute_def
      addCallback_def addBoth_def failing_env_def store_env_def start_def empty_store_def
      live_rows_def as_row_def keyed_def)

text \<open>C7, as the code has it. After a successful acquisition, whatever the outcome of
  the unit of work (a result or a failure), the trace of \<open>with_lock\<close> is the trace the
  unit of work left followed by the one DELETE of the engine's claim record: the
  release is issued exactly once, after the unit of work and before the caller receives
  anything. The caller then receives the outcome of the unit of work, in particular
  its original failure, if the release succeeded, and the failure of the release if it
  did not.\<close>

theorem with_lock_releases_once:
  assumes "BasicLock_init env tbl lid t w = (lock, w0)"
    and "acquire env lock max_retry timeout w0 = (Inr ok, w1)"
    and "func w1 = (out, w2)"
  shows "trace (snd (with_lock env tbl lid func t max_retry timeout w)) =
           trace w2 @ [Executed (Delete tbl lid (claim_id lock)) QUORUM]
       \<and> releases lock (drop (length (trace w2))
            (trace (snd (with_lock env tbl lid func t max_retry timeout w)))) = 1
       \<and> fst (with_lock env tbl lid func t max_retry timeout w) =
           (case fst (release env lock w2) of Inl f \<Rightarrow> Inl f | Inr x \<Rightarrow> out)"
proof -
  have eq: "with_lock env tbl lid func t max_retry timeout w = release_lock env lock out w2"
    by (rule with_lock_acquired [where func = func, OF assms])
  have fields: "lock_table lock = tbl \<and> lock_id lock = lid"
    using BasicLock_init_fields [OF assms(1)] by simp
  have tr: "trace (snd (with_lock env tbl lid func t max_retry timeout w)) =
      trace w2 @ [Executed (Delete tbl lid (claim_id lock)) QUORUM]"
    using fields by (simp add: eq release_lock_snd release_trace)
  have "releases lock (drop (length (trace w2))
      (trace (snd (with_lock env tbl lid func t max_retry timeout w)))) = 1"
    using fields by (simp add: tr releases_def)
  with tr show ?thesis
    by (simp add: eq release_lock_fst)
qed

theorem with_lock_releases_once_witness:
  "trace (snd (with_lock store_env ''locks'' ''jobs-queue''
      (\<lambda>w. (Inl (OtherException ''boom'') :: failure + int, w)) 300 5 10 (start empty_store))) =
     [Generated 1, Executed (Insert ''locks'' ''jobs-queue'' 1 300) QUORUM,
      Executed (Select ''locks'' ''jobs-queue'') QUORUM,
      Executed (Delete ''locks'' ''jobs-queue'' 1) QUORUM]
   \<and> fst (with_lock store_env ''locks'' ''jobs-queue''
      (\<lambda>w. (Inl (OtherException ''boom'') :: failure + int, w)) 300 5 10 (start empty_store)) =
     Inl (OtherException ''boom'')"
proof -
  let ?func = "\<lambda>w :: store world. (Inl (OtherException ''boom'') :: failure + int, w)"
  let ?lock = "\<lparr>lock_table = ''locks'', lock_id = ''jobs-queue'', claim_id = 1, ttl = 300\<rparr>"
  let ?w0 = "\<lparr>trace = [Generated 1], backend = empty_store\<lparr>uuids := 2\<rparr>\<rparr>"
  let ?w1 = "\<lparr>trace = [Generated 1, Executed (Insert ''locks'' ''jobs-queue'' 1 300) QUORUM,
      Executed (Select ''locks'' ''jobs-queue'') QUORUM],
      backend = empty_store\<lparr>uuids := 2, claims :=
        [\<lparr>cr_table = ''locks'', cr_lock = ''jobs-queue'', cr_claim = 1, cr_expiry = 300\<rparr>]\<rparr>\<rparr>"
  have init: "BasicLock_init store_env ''locks'' ''jobs-queue'' 300 (start empty_store) = (?lock, ?w0)"
    by (simp add: BasicLock_init_def uuid1_def store_env_def start_def empty_store_def)
  have acq: "acquire store_env ?lock 5 10 ?w0 = (Inr True, ?w1)"
    by (simp add: acquire_def acquire_lock_def write_lock_def read_lock_def verify_lock_def
        execute_def addCallback_def store_env_def empty_store_def live_rows_def as_row_def
        keyed_def)
  have run: "?func ?w1 = (Inl (OtherException ''boom''), ?w1)"
    by simp
  have "fst (release store_env ?lock ?w1) = Inr []"
    by (simp add: release_def execute_fst store_env_def)
  then show ?thesis
    using with_lock_releases_once [where func = "?func", OF init acq run]
    by simp
qed

text \<open>C7 as claimed fails where the release fails: the unit of work raises, the
  DELETE of the release times out, and the caller receives the timeout, not the failure
  of the unit of work.\<close>

theorem with_lock_failure_replaced_counterexample:
  "fst (with_lock (failing_env is_Delete (OtherException ''TimedOutException''))
      ''locks'' ''jobs-queue'' (\<lambda>w. (Inl (OtherException ''boom'') :: failure + int, w)) 300 5 10
      (start empty_store))
     = Inl (OtherException ''TimedOutException'')"
  by (simp add: with_lock_def BasicLock_init_def uuid1_def acquire_def acquire_lock_def
      write_lock_def read_lock_def verify_lock_def release_lock_def release_def execute_def
      addCallback_def addBoth_def failing_env_def store_env_def start_def empty_store_def
      live_rows_def as_row_def keyed_def)

subsection \<open>Release on the store of the spec\<close>

lemma filter_keyed_absent:
  "filter (keyed cf l c) xs = [] \<Longrightarrow> filter (\<lambda>r. \<not> keyed cf l c r) xs = xs"
  by (induction xs) (auto split: if_splits)

lemma release_store_backend:
  "backend (snd (release store_env lk w)) =
     (backend w)\<lparr>claims := filter (\<lambda>r. \<not> keyed (lock_table lk) (lock_id lk) (claim_id lk) r)
        (claims (backend w))\<rparr>"
  by (simp add: release_def execute_backend store_env_def)

lemma release_store_fst: "fst (release store_env lk w) = Inr []"
  by (simp add: release_def execute_fst store_env_def)

text \<open>C9. On the store of the spec, in every state of it, \<open>release\<close> returns without
  error, once and a second time; after it no claim record of the engine's (lock name,
  claim identifier) is stored; a second release leaves the store as the first left it;
  and where the engine's record was absent the store is unchanged. With any gateway,
  \<open>release\<close> issues its one DELETE unconditionally: it reads nothing and checks no
  earlier acquisition.\<close>

theorem release_idempotent:
  "fst (release store_env lk w) = Inr []
   \<and> fst (release store_env lk (snd (release store_env lk w))) = Inr []
   \<and> \<not> stored (backend (snd (release store_env lk w))) (lock_table lk) (lock_id lk) (claim_id lk)
   \<and> backend (snd (release store_env lk (snd (release store_env lk w)))) =
       backend (snd (release store_env lk w))
   \<and> (\<not> stored (backend w) (lock_table lk) (lock_id lk) (claim_id lk) \<longrightarrow>
        backend (snd (release store_env lk w)) = backend w)
   \<and> trace (snd (release env lk v)) =
       trace v @ [Executed (Delete (lock_table lk) (lock_id lk) (claim_id lk)) QUORUM]"
proof (intro conjI impI)
  show "fst (release store_env lk w) = Inr []"
    by (rule release_store_fst)
  show "fst (release store_env lk (snd (release store_env lk w))) = Inr []"
    by (rule release_store_fst)
  show "\<not> stored (backend (snd (release store_env lk w))) (lock_table lk) (lock_id lk) (claim_id lk)"
    by (simp add: release_store_backend stored_def)
  show "backend (snd (release store_env lk (snd (release store_env lk w)))) =
       backend (snd (release store_env lk w))"
    by (simp add: release_store_backend)
  show "backend (snd (release store_env lk w)) = backend w"
    if "\<not> stored (backend w) (lock_table lk) (lock_id lk) (claim_id lk)"
    using that by (simp add: release_store_backend stored_def filter_keyed_absent)
  show "trace (snd (release env lk v)) =
       trace v @ [Executed (Delete (lock_table lk) (lock_id lk) (claim_id lk)) QUORUM]"
    by (rule release_trace)
qed

theorem release_idempotent_witness:
  "\<not> stored empty_store ''locks'' ''jobs-queue'' 2
   \<and> release store_env engine_B (start empty_store) =
       (Inr [], \<lparr>trace = [Executed (Delete ''locks'' ''jobs-queue'' 2) QUORUM],
                 backend = empty_store\<rparr>)
   \<and> stored both_written ''locks'' ''jobs-queue'' 2
   \<and> \<not> stored (backend (snd (release store_env engine_B (start both_written))))
        ''locks'' ''jobs-queue'' 2"
proof -
  have absent: "\<not> stored (backend (start empty_store)) (lock_table engine_B) (lock_id engine_B)
      (claim_id engine_B)"
    by (simp add: stored_def start_def empty_store_def engine_B_def)
  have "stored both_written ''locks'' ''jobs-queue'' 2"
    by (simp add: stored_def both_written_def keyed_def)
  then show ?thesis
    using absent release_idempotent [of engine_B "start empty_store" store_env "start empty_store"]
      release_idempotent [of engine_B "start both_written" store_env "start empty_store"]
    by (cases "release store_env engine_B (start empty_store)")
       (simp add: start_def engine_B_def world.equality)
qed

subsection \<open>Mutual exclusion on the store of the spec\<close>

text \<open>The ordered read puts the earliest live claim first, and the verify step succeeds
  only on the first row: an engine whose read-and-verify succeeds holds a claim
  identifier no later than any claim live at that instant.\<close>

lemma hd_sorted_le:
  "sorted xs \<Longrightarrow> x \<in> set xs \<Longrightarrow> hd xs \<le> (x::nat)"
  by (cases xs) auto

lemma read_lock_store:
  "read_lock store_env lk x w =
     (Inr (sort_key claimId (map as_row (live_rows (backend w) (lock_table lk) (lock_id lk)))),
      snd (read_lock store_env lk x w))"
  by (simp add: read_lock_def execute_def store_env_def)

lemma verify_lock_success:
  "fst (verify_lock env lk rows w) = Inr True \<Longrightarrow> rows \<noteq> [] \<and> claimId (hd rows) = claim_id lk"
  by (cases rows)
     (auto simp: verify_lock_def addCallback_def split: if_splits prod.splits sum.splits)

lemma read_verify_success:
  assumes "fst (addCallback (read_lock store_env lk x w) (verify_lock store_env lk)) = Inr True"
    and "live (backend w) (lock_table lk) (lock_id lk) c"
  shows "claim_id lk \<le> c"
proof -
  let ?rows = "sort_key claimId (map as_row (live_rows (backend w) (lock_table lk) (lock_id lk)))"
  have "fst (verify_lock store_env lk ?rows (snd (read_lock store_env lk x w))) = Inr True"
    using assms(1) by (subst (asm) read_lock_store) (simp add: addCallback_def)
  then have head: "claimId (hd ?rows) = claim_id lk" and ne: "?rows \<noteq> []"
    using verify_lock_success by blast+
  have "sorted (map claimId ?rows)"
    by (rule sorted_sort_key)
  moreover have "c \<in> set (map claimId ?rows)"
    using assms(2) by (simp add: live_def as_row_def image_image)
  ultimately have "hd (map claimId ?rows) \<le> c"
    by (rule hd_sorted_le)
  with head ne show ?thesis
    by (simp add: hd_map)
qed

lemma read_verify_earliest:
  assumes "live (backend w) (lock_table lk) (lock_id lk) (claim_id lk)"
    and "\<forall>c. live (backend w) (lock_table lk) (lock_id lk) c \<longrightarrow> claim_id lk \<le> c"
  shows "fst (addCallback (read_lock store_env lk x w) (verify_lock store_env lk)) = Inr True"
proof -
  let ?rows = "sort_key claimId (map as_row (live_rows (backend w) (lock_table lk) (lock_id lk)))"
  have members: "set (map claimId ?rows) = {c. live (backend w) (lock_table lk) (lock_id lk) c}"
    by (auto simp: live_def as_row_def image_image)
  have "claim_id lk \<in> set (map claimId ?rows)"
    using assms(1) members by simp
  then obtain r rest where rows: "?rows = r # rest"
    by (cases ?rows) auto
  have "claimId r \<in> set (map claimId ?rows)"
    by (simp add: rows)
  then have "claim_id lk \<le> claimId r"
    using assms(2) members by simp
  moreover have "sorted (map claimId ?rows)"
    by (rule sorted_sort_key)
  then have "hd (map claimId ?rows) \<le> claim_id lk"
    using \<open>claim_id lk \<in> set (map claimId ?rows)\<close> by (rule hd_sorted_le)
  then have "claimId r \<le> claim_id lk"
    by (simp add: rows)
  ultimately have first: "claimId r = claim_id lk"
    by simp
  have "fst (verify_lock store_env lk ?rows (snd (read_lock store_env lk x w))) = Inr True"
    unfolding rows using first by (simp add: verify_lock_def)
  then show ?thesis
    by (subst read_lock_store) (simp add: addCallback_def)
qed

lemma write_lock_store:
  "write_lock store_env lk w = (Inr [], snd (write_lock store_env lk w))"
  by (simp add: write_lock_def execute_def store_env_def)

lemma live_after_write_lock:
  assumes "live (backend w) cf l c" and "c \<noteq> claim_id lk"
  shows "live (backend (snd (write_lock store_env lk w))) cf l c"
proof -
  obtain r where r: "r \<in> set (claims (backend w))" "cr_table r = cf" "cr_lock r = l"
      "now (backend w) < cr_expiry r" "cr_claim r = c"
    using assms(1) by (auto simp: live_def live_rows_def)
  have "\<not> keyed (lock_table lk) (lock_id lk) (claim_id lk) r"
    using r(5) assms(2) by (simp add: keyed_def)
  with r have "r \<in> set (live_rows (backend (snd (write_lock store_env lk w))) cf l)"
    by (auto simp: write_lock_def execute_backend store_env_def live_rows_def)
  with r(5) show ?thesis
    unfolding live_def by force
qed

lemma acquire_lock_store:
  "acquire_lock store_env lk w =
     addCallback (read_lock store_env lk [] (snd (write_lock store_env lk w)))
       (verify_lock store_env lk)"
  unfolding acquire_lock_def
  by (subst write_lock_store) (simp add: addCallback_def)

text \<open>C1, as the code has it, on the store of the spec. Two engines \<open>a\<close> and \<open>b\<close> on
  the same table and lock name, with distinct claim identifiers, read and verify at two
  instants (the worlds \<open>wa\<close> and \<open>wb\<close>, reached by any interleaving) at which both
  claim records are live. Then at most one of the two observes success, and the one
  that does holds the earlier claim identifier. The same holds of a whole
  write-read-verify cycle of \<open>a\<close> started where the record of \<open>b\<close> is live. And the
  read-and-verify of \<open>a\<close> succeeds exactly when its claim identifier is the earliest
  of the claims live at that instant, the first of the ordered read.\<close>

theorem earliest_live_claim_wins:
  assumes "lock_table a = lock_table b" and "lock_id a = lock_id b"
    and "claim_id a \<noteq> claim_id b"
    and "live (backend wa) (lock_table a) (lock_id a) (claim_id a)"
    and "live (backend wa) (lock_table a) (lock_id a) (claim_id b)"
    and "live (backend wb) (lock_table a) (lock_id a) (claim_id a)"
    and "live (backend wb) (lock_table a) (lock_id a) (claim_id b)"
  shows "\<not> (fst (addCallback (read_lock store_env a x wa) (verify_lock store_env a)) = Inr True
          \<and> fst (addCallback (read_lock store_env b y wb) (verify_lock store_env b)) = Inr True)
    \<and> (fst (addCallback (read_lock store_env a x wa) (verify_lock store_env a)) = Inr True
         \<longrightarrow> claim_id a < claim_id b)
    \<and> (fst (addCallback (read_lock store_env b y wb) (verify_lock store_env b)) = Inr True
         \<longrightarrow> claim_id b < claim_id a)
    \<and> (fst (acquire_lock store_env a wa) = Inr True \<longrightarrow> claim_id a < claim_id b)
    \<and> (fst (addCallback (read_lock store_env a x wa) (verify_lock store_env a)) = Inr True) =
        (\<forall>c. live (backend wa) (lock_table a) (lock_id a) c \<longrightarrow> claim_id a \<le> c)"
proof -
  have a_wins: "claim_id a < claim_id b"
    if "fst (addCallback (read_lock store_env a x wa) (verify_lock store_env a)) = Inr True"
    using read_verify_success [OF that assms(5)] assms(3) by simp
  have b_wins: "claim_id b < claim_id a"
    if "fst (addCallback (read_lock store_env b y wb) (verify_lock store_env b)) = Inr True"
    using read_verify_success [OF that] assms(1,2,3,6) by fastforce
  have cycle: "claim_id a < claim_id b"
    if "fst (acquire_lock store_env a wa) = Inr True"
  proof -
    have "live (backend (snd (write_lock store_env a wa))) (lock_table a) (lock_id a) (claim_id b)"
      using assms(5) assms(3) by (intro live_after_write_lock) auto
    moreover have "fst (addCallback (read_lock store_env a [] (snd (write_lock store_env a wa)))
        (verify_lock store_env a)) = Inr True"
      using that by (simp add: acquire_lock_store)
    ultimately have "claim_id a \<le> claim_id b"
      by (intro read_verify_success)
    with assms(3) show ?thesis
      by simp
  qed
  have earliest: "(fst (addCallback (read_lock store_env a x wa) (verify_lock store_env a)) = Inr True) =
        (\<forall>c. live (backend wa) (lock_table a) (lock_id a) c \<longrightarrow> claim_id a \<le> c)"
    using read_verify_success [of a x wa] read_verify_earliest [OF assms(4), of x]
    by blast
  have exclusive: "\<not> (fst (addCallback (read_lock store_env a x wa) (verify_lock store_env a)) = Inr True
          \<and> fst (addCallback (read_lock store_env b y wb) (verify_lock store_env b)) = Inr True)"
    using a_wins b_wins by fastforce
  from exclusive a_wins b_wins cycle earliest show ?thesis
    by (intro conjI impI)
qed

theorem earliest_live_claim_wins_witness:
  "live (backend (snd (write_lock store_env engine_B (snd (write_lock store_env engine_A
      (start empty_store)))))) ''locks'' ''jobs-queue'' 1
   \<and> live (backend (snd (write_lock store_env engine_B (snd (write_lock store_env engine_A
      (start empty_store)))))) ''locks'' ''jobs-queue'' 2
   \<and> fst (addCallback (read_lock store_env engine_A []
        (snd (write_lock store_env engine_B (snd (write_lock store_env engine_A
          (start empty_store)))))) (verify_lock store_env engine_A)) = Inr True
   \<and> fst (addCallback (read_lock store_env engine_B []
        (snd (write_lock store_env engine_B (snd (write_lock store_env engine_A
          (start empty_store)))))) (verify_lock store_env engine_B))
      = Inl (BusyLockError ''Unable to acquire lock jobs-queue on locks'')
   \<and> claim_id engine_A < claim_id engine_B"
proof -
  let ?W = "\<lparr>trace = [Executed (Insert ''locks'' ''jobs-queue'' 1 5) QUORUM,
                       Executed (Insert ''locks'' ''jobs-queue'' 2 5) QUORUM],
             backend = both_written\<lparr>uuids := 1\<rparr>\<rparr>"
  have weq: "snd (write_lock store_env engine_B (snd (write_lock store_env engine_A
      (start empty_store)))) = ?W"
    by (simp add: write_lock_def execute_def store_env_def engine_A_def engine_B_def
        start_def empty_store_def both_written_def keyed_def)
  have fields: "lock_table engine_A = ''locks''" "lock_id engine_A = ''jobs-queue''"
      "claim_id engine_A = 1" "claim_id engine_B = 2"
    by (simp_all add: engine_A_def engine_B_def)
  have same: "lock_table engine_A = lock_table engine_B" "lock_id engine_A = lock_id engine_B"
      "claim_id engine_A \<noteq> claim_id engine_B"
    by (simp_all add: engine_A_def engine_B_def)
  have la: "live (backend ?W) (lock_table engine_A) (lock_id engine_A) (claim_id engine_A)"
    by (simp add: fields live_def live_rows_def both_written_def)
  have lb: "live (backend ?W) (lock_table engine_A) (lock_id engine_A) (claim_id engine_B)"
    by (simp add: fields live_def live_rows_def both_written_def)
  have a: "fst (addCallback (read_lock store_env engine_A [] ?W) (verify_lock store_env engine_A))
      = Inr True"
    by (simp add: addCallback_def read_lock_def verify_lock_def execute_def store_env_def
        live_rows_def as_row_def both_written_def engine_A_def)
  have b: "fst (addCallback (read_lock store_env engine_B [] ?W) (verify_lock store_env engine_B))
      = Inl (BusyLockError ''Unable to acquire lock jobs-queue on locks'')"
    by (simp add: addCallback_def read_lock_def verify_lock_def release_def execute_def
        store_env_def live_rows_def as_row_def both_written_def engine_B_def
        BusyLockError_init_def)
  show ?thesis
    unfolding weq
    using earliest_live_claim_wins [OF same la lb la lb, of "[]" "[]"] a b la lb
    by (simp add: fields)
qed

text \<open>C1 as claimed fails where one engine verifies before the write of the other
  lands. The claim identifier is fixed when the engine is constructed, not when it
  writes: engine \<open>B\<close> (identifier 2) writes, reads its own row alone and succeeds; then
  the write of engine \<open>A\<close> (identifier 1) lands, \<open>A\<close> reads its own row first and
  succeeds as well. Both have observed success, and both claim records are live and
  unreleased.\<close>

theorem both_engines_succeed_counterexample:
  "lock_table engine_A = lock_table engine_B \<and> lock_id engine_A = lock_id engine_B
   \<and> claim_id engine_A \<noteq> claim_id engine_B
   \<and> fst (acquire_lock store_env engine_B (start empty_store)) = Inr True
   \<and> fst (acquire_lock store_env engine_A
        (snd (acquire_lock store_env engine_B (start empty_store)))) = Inr True
   \<and> live (backend (snd (acquire_lock store_env engine_A
        (snd (acquire_lock store_env engine_B (start empty_store))))))
        ''locks'' ''jobs-queue'' 1
   \<and> live (backend (snd (acquire_lock store_env engine_A
        (snd (acquire_lock store_env engine_B (start empty_store))))))
        ''locks'' ''jobs-queue'' 2"
proof -
  let ?W1 = "\<lparr>trace = [Executed (Insert ''locks'' ''jobs-queue'' 2 5) QUORUM,
                       Executed (Select ''locks'' ''jobs-queue'') QUORUM],
              backend = empty_store\<lparr>claims :=
                [\<lparr>cr_table = ''locks'', cr_lock = ''jobs-queue'', cr_claim = 2, cr_expiry = 5\<rparr>]\<rparr>\<rparr>"
  let ?W2 = "\<lparr>trace = [Executed (Insert ''locks'' ''jobs-queue'' 2 5) QUORUM,
                       Executed (Select ''locks'' ''jobs-queue'') QUORUM,
                       Executed (Insert ''locks'' ''jobs-queue'' 1 5) QUORUM,
                       Executed (Select ''locks'' ''jobs-queue'') QUORUM],
              backend = empty_store\<lparr>claims :=
                [\<lparr>cr_table = ''locks'', cr_lock = ''jobs-queue'', cr_claim = 1, cr_expiry = 5\<rparr>,
                 \<lparr>cr_table = ''locks'', cr_lock = ''jobs-queue'', cr_claim = 2, cr_expiry = 5\<rparr>]\<rparr>\<rparr>"
  have b: "acquire_lock store_env engine_B (start empty_store) = (Inr True, ?W1)"
    by (simp add: acquire_lock_def write_lock_def read_lock_def verify_lock_def execute_def
        addCallback_def store_env_def engine_B_def start_def empty_store_def live_rows_def
        as_row_def keyed_def)
  have a: "acquire_lock store_env engine_A ?W1 = (Inr True, ?W2)"
    by (simp add: acquire_lock_def write_lock_def read_lock_def verify_lock_def execute_def
        addCallback_def store_env_def engine_A_def empty_store_def live_rows_def
        as_row_def keyed_def)
  have "live (backend ?W2) ''locks'' ''jobs-queue'' 1"
    and "live (backend ?W2) ''locks'' ''jobs-queue'' 2"
    by (simp_all add: live_def live_rows_def empty_store_def)
  moreover have "lock_table engine_A = lock_table engine_B \<and> lock_id engine_A = lock_id engine_B
      \<and> claim_id engine_A \<noteq> claim_id engine_B"
    by (simp add: engine_A_def engine_B_def)
  ultimately show ?thesis
    by (simp only: a b fst_conv snd_conv simp_thms)
qed

end
